theory Spec2Isabelle
  imports Main "HOL-Library.Word"
begin

section \<open>The UART console of \<open>Core/Src/console.c\<close>\<close>

text \<open>
  The module keeps its state in file-scope variables: the DMA receive ring
  \<open>uart_rx_dma_buf\<close>, the read cursor \<open>dma_last_pos\<close>, the flag \<open>rx_pending\<close>
  set by the USART2 interrupt handler, and the line under construction
  (\<open>line_buf\<close>, \<open>line_len\<close>). The record below holds these variables with their C
  widths, and one more field, \<open>uart_tx\<close>: the bytes handed to the blocking
  \<open>HAL_UART_Transmit\<close>, oldest first. Functions of the module become functions from
  state to state.
\<close>

subsection \<open>Data\<close>

type_synonym byte = "8 word"

definition UART_RX_DMA_BUF_SIZE :: nat where
  "UART_RX_DMA_BUF_SIZE = 128"

definition LINE_BUF_SIZE :: nat where
  "LINE_BUF_SIZE = 64"

record console =
  uart_rx_dma_buf :: "byte list"
  dma_last_pos :: "16 word"
  rx_pending :: byte
  line_buf :: "byte list"
  line_len :: byte
  uart_tx :: "byte list"

text \<open>A C string literal as its bytes, without the terminating NUL.\<close>

definition bytes_of :: "string \<Rightarrow> byte list" where
  "bytes_of = map of_char"

text \<open>
  The C string that starts at the beginning of a \<open>char\<close> array: everything before
  the first NUL. \<open>strcmp (p, q) == 0\<close> holds exactly when the two C strings
  are equal.
\<close>

definition c_string :: "byte list \<Rightarrow> byte list" where
  "c_string buf = takeWhile (\<lambda>b. b \<noteq> 0) buf"

text \<open>
  Static storage is zero-initialised; \<open>dma_last_pos\<close>, \<open>rx_pending\<close> and
  \<open>line_len\<close> carry the initialiser \<open>0\<close> explicitly.
\<close>

definition boot_state :: console where
  "boot_state =
     \<lparr> uart_rx_dma_buf = replicate UART_RX_DMA_BUF_SIZE 0,
       dma_last_pos = 0,
       rx_pending = 0,
       line_buf = replicate LINE_BUF_SIZE 0,
       line_len = 0,
       uart_tx = [] \<rparr>"

subsection \<open>Transmit helpers\<close>

text \<open>
  \<open>HAL_UART_Transmit (&huart2, p, n, HAL_MAX_DELAY)\<close> sends the \<open>n\<close> bytes at
  \<open>p\<close>; the argument here is that byte sequence. The call blocks until the bytes
  are out, and the module ignores its status.
\<close>

definition HAL_UART_Transmit :: "byte list \<Rightarrow> console \<Rightarrow> console" where
  "HAL_UART_Transmit bs s = s\<lparr>uart_tx := uart_tx s @ bs\<rparr>"

definition console_prompt :: "console \<Rightarrow> console" where
  "console_prompt s = HAL_UART_Transmit (bytes_of ''> '') s"

text \<open>\<open>console_write s\<close> sends \<open>strlen s\<close> bytes of \<open>s\<close>.\<close>

definition console_write :: "byte list \<Rightarrow> console \<Rightarrow> console" where
  "console_write str s = HAL_UART_Transmit (c_string str) s"

subsection \<open>Command handling\<close>

text \<open>The text written by the \<open>help\<close> branch of \<open>console_handle_command\<close>.\<close>

definition help_text :: "byte list" where
  "help_text = bytes_of ''help, led off, led slow, led fast'' @ [0x0D, 0x0A]"

text \<open>
  \<open>console_handle_command (cmd)\<close>: the argument is the array that \<open>cmd\<close> points
  to. The only comparison made is with \<open>"help"\<close>; the prompt follows in every case.
\<close>

definition console_handle_command :: "byte list \<Rightarrow> console \<Rightarrow> console" where
  "console_handle_command cmd s =
     console_prompt
       (if c_string cmd = bytes_of ''help'' then console_write help_text s else s)"

text \<open>
  \<open>console_init\<close> arms the DMA reception and the idle interrupt (HAL calls outside
  this module, with no effect on the variables above) and prints the first prompt.
\<close>

definition console_init :: "console \<Rightarrow> console" where
  "console_init s = console_prompt s"

subsection \<open>The line editor\<close>

text \<open>
  The body of the \<open>for\<close> loop of \<open>console_process_bytes\<close>, for the byte
  \<open>c = data[i]\<close>. The range test \<open>c >= 0x20 && c <= 0x7E\<close> gives the same
  answer for a signed and for an unsigned \<open>char\<close>: a byte above \<open>0x7F\<close> fails
  the first half when \<open>char\<close> is signed and the second half when it is unsigned.
  The stores \<open>line_buf[line_len] = ...\<close> are list updates; they stay inside the
  array as long as \<open>line_len \<le> LINE_BUF_SIZE - 1\<close>, which the editor maintains.
\<close>

definition console_process_byte :: "byte \<Rightarrow> console \<Rightarrow> console" where
  "console_process_byte c s =
     (if c = 0x0D \<or> c = 0x0A then
        (let s1 = HAL_UART_Transmit [0x0D, 0x0A] s in
         if 0 < unat (line_len s1) then
           (let s2 = s1\<lparr>line_buf := (line_buf s1)[unat (line_len s1) := 0]\<rparr>;
                s3 = console_handle_command (line_buf s2) s2
            in s3\<lparr>line_len := 0\<rparr>)
         else s1)
      else if c = 0x08 \<or> c = 0x7F then
        (if 0 < unat (line_len s) then
           HAL_UART_Transmit [0x08, 0x20, 0x08] (s\<lparr>line_len := line_len s - 1\<rparr>)
         else s)
      else if 0x20 \<le> c \<and> c \<le> 0x7E then
        (if unat (line_len s) < LINE_BUF_SIZE - 1 then
           HAL_UART_Transmit [c]
             (s\<lparr>line_buf := (line_buf s)[unat (line_len s) := c],
                line_len := line_len s + 1\<rparr>)
         else s)
      else s)"

text \<open>
  \<open>console_process_bytes (data, len)\<close>: the argument is the sequence
  \<open>data[0], ..., data[len - 1]\<close>, processed front to back.
\<close>

fun console_process_bytes :: "byte list \<Rightarrow> console \<Rightarrow> console" where
  "console_process_bytes [] s = s"
| "console_process_bytes (c # cs) s = console_process_bytes cs (console_process_byte c s)"

subsection \<open>The poll operation\<close>

text \<open>
  \<open>dma_pos\<close> is \<open>UART_RX_DMA_BUF_SIZE - __HAL_DMA_GET_COUNTER (huart2.hdmarx)\<close>
  stored into a \<open>uint16_t\<close>. The macro reads the 32-bit remaining-transfers register of
  the DMA stream; the register value is the parameter \<open>counter\<close>. The subtraction is
  done in 32 bits and the result truncated to 16.
\<close>

definition dma_pos_of :: "32 word \<Rightarrow> 16 word" where
  "dma_pos_of counter = ucast (of_nat UART_RX_DMA_BUF_SIZE - counter)"

text \<open>
  The \<open>len\<close> bytes at \<open>&uart_rx_dma_buf[off]\<close>. The calls made by \<open>task_console\<close>
  stay inside the array whenever both cursors are at most \<open>UART_RX_DMA_BUF_SIZE\<close>;
  outside that range the C code would read past the array, where this model reads nothing.
\<close>

definition rx_slice :: "nat \<Rightarrow> nat \<Rightarrow> byte list \<Rightarrow> byte list" where
  "rx_slice off len buf = take len (drop off buf)"

definition task_console :: "32 word \<Rightarrow> console \<Rightarrow> console" where
  "task_console counter s =
     (if rx_pending s = 0 then s
      else
        (let s0 = s\<lparr>rx_pending := 0\<rparr>;
             dma_pos = dma_pos_of counter;
             last_pos = dma_last_pos s0;
             buf = uart_rx_dma_buf s0
         in
         if dma_pos \<noteq> last_pos then
           (let s1 =
              (if last_pos < dma_pos then
                 console_process_bytes
                   (rx_slice (unat last_pos) (unat (dma_pos - last_pos)) buf) s0
               else
                 (let sa = console_process_bytes
                             (rx_slice (unat last_pos)
                                (unat (of_nat UART_RX_DMA_BUF_SIZE - last_pos)) buf) s0
                  in if 0 < dma_pos then
                       console_process_bytes (rx_slice 0 (unat dma_pos) buf) sa
                     else sa))
            in s1\<lparr>dma_last_pos := dma_pos\<rparr>)
         else s0))"

text \<open>
  The \<open>(offset, length)\<close> arguments of the calls of \<open>console_process_bytes\<close> that
  \<open>task_console\<close> makes for a read cursor \<open>last_pos\<close> and a write position
  \<open>dma_pos\<close>, in call order, following the same branches.
\<close>

definition rx_spans :: "16 word \<Rightarrow> 16 word \<Rightarrow> (nat \<times> nat) list" where
  "rx_spans last_pos dma_pos =
     (if dma_pos \<noteq> last_pos then
        (if last_pos < dma_pos then [(unat last_pos, unat (dma_pos - last_pos))]
         else (unat last_pos, unat (of_nat UART_RX_DMA_BUF_SIZE - last_pos))
              # (if 0 < dma_pos then [(0, unat dma_pos)] else []))
      else [])"

text \<open>Handing one span of the ring to the line editor.\<close>

definition feed_span :: "byte list \<Rightarrow> nat \<times> nat \<Rightarrow> console \<Rightarrow> console" where
  "feed_span buf sp s = console_process_bytes (rx_slice (fst sp) (snd sp) buf) s"

subsection \<open>Auxiliary notions for the statements\<close>

text \<open>The printable class of the line editor: the test \<open>c >= 0x20 && c <= 0x7E\<close>.\<close>

definition printable :: "byte \<Rightarrow> bool" where
  "printable c \<longleftrightarrow> 0x20 \<le> c \<and> c \<le> 0x7E"

text \<open>
  Modelled from the spec: the hardware writer of the ring, which is not part of the
  module. The DMA stream in circular mode stores each received byte at its write
  position and advances that position by one, wrapping from the last index to index 0;
  its remaining-transfers register then reads \<open>UART_RX_DMA_BUF_SIZE\<close> minus the write
  position. \<open>dma_write pos ws buf\<close> is the ring after the bytes \<open>ws\<close> have
  arrived, starting at write position \<open>pos\<close>.
\<close>

fun dma_write :: "nat \<Rightarrow> byte list \<Rightarrow> byte list \<Rightarrow> byte list" where
  "dma_write pos [] buf = buf"
| "dma_write pos (w # ws) buf =
     dma_write ((pos + 1) mod UART_RX_DMA_BUF_SIZE) ws (buf[pos := w])"

subsection \<open>The earlier revision of the line editor\<close>

text \<open>
  The repository also holds the first revision of \<open>console.c\<close>, before echo,
  backspace and the prompt were added. Its loop body sends the finished line followed
  by \<open>"\r\n"\<close> on a terminator with a non-empty line, stores every other byte while
  there is room, and on a full buffer sets \<open>line_len\<close> back to 0.
\<close>

definition console_process_byte_rev1 :: "byte \<Rightarrow> console \<Rightarrow> console" where
  "console_process_byte_rev1 c s =
     (if c = 0x0D \<or> c = 0x0A then
        (if 0 < unat (line_len s) then
           (let s1 = s\<lparr>line_buf := (line_buf s)[unat (line_len s) := 0]\<rparr>;
                s2 = HAL_UART_Transmit (take (unat (line_len s1)) (line_buf s1)) s1;
                s3 = HAL_UART_Transmit [0x0D, 0x0A] s2
            in s3\<lparr>line_len := 0\<rparr>)
         else s)
      else if unat (line_len s) < LINE_BUF_SIZE - 1 then
        s\<lparr>line_buf := (line_buf s)[unat (line_len s) := c],
          line_len := line_len s + 1\<rparr>
      else s\<lparr>line_len := 0\<rparr>)"

section \<open>Properties\<close>

subsection \<open>Basic facts\<close>

lemma uart_tx_transmit [simp]: "uart_tx (HAL_UART_Transmit bs s) = uart_tx s @ bs"
  by (simp add: HAL_UART_Transmit_def)

lemma line_len_transmit [simp]: "line_len (HAL_UART_Transmit bs s) = line_len s"
  by (simp add: HAL_UART_Transmit_def)

lemma line_buf_transmit [simp]: "line_buf (HAL_UART_Transmit bs s) = line_buf s"
  by (simp add: HAL_UART_Transmit_def)

lemma task_console_as_fold:
  "rx_pending s \<noteq> 0 \<Longrightarrow>
   task_console counter s =
     (fold (feed_span (uart_rx_dma_buf s))
        (rx_spans (dma_last_pos s) (dma_pos_of counter))
        (s\<lparr>rx_pending := 0\<rparr>))
     \<lparr>dma_last_pos := dma_pos_of counter\<rparr>"
  by (simp add: task_console_def rx_spans_def feed_span_def Let_def)

lemma unat_dec: "0 < unat (w :: byte) \<Longrightarrow> unat (w - 1) = unat w - 1"
  by (rule unat_minus_one) (auto simp: unat_eq_zero)

lemma unat_inc: "unat (w :: byte) < 63 \<Longrightarrow> unat (w + 1) = unat w + 1"
  by (simp add: unat_word_ariths)

lemma console_handle_command_tx:
  "console_handle_command cmd s =
     s\<lparr>uart_tx := uart_tx s
          @ (if c_string cmd = bytes_of ''help'' then help_text else [])
          @ bytes_of ''> ''\<rparr>"
  by (simp add: console_handle_command_def console_prompt_def console_write_def
        HAL_UART_Transmit_def c_string_def help_text_def bytes_of_def)

lemma enter_nonempty:
  "c = 0x0D \<or> c = 0x0A \<Longrightarrow> 0 < unat (line_len s) \<Longrightarrow>
   console_process_byte c s =
     s\<lparr>line_buf := (line_buf s)[unat (line_len s) := 0],
       line_len := 0,
       uart_tx := uart_tx s @ [0x0D, 0x0A]
          @ (if c_string ((line_buf s)[unat (line_len s) := 0]) = bytes_of ''help''
             then help_text else [])
          @ bytes_of ''> ''\<rparr>"
  by (auto simp: console_process_byte_def console_handle_command_tx
        HAL_UART_Transmit_def Let_def)

lemma printable_step:
  "0x20 \<le> c \<Longrightarrow> c \<le> 0x7E \<Longrightarrow>
   console_process_byte c s =
     (if unat (line_len s) < LINE_BUF_SIZE - 1
      then s\<lparr>line_buf := (line_buf s)[unat (line_len s) := c],
             line_len := line_len s + 1,
             uart_tx := uart_tx s @ [c]\<rparr>
      else s)"
  by (auto simp: console_process_byte_def HAL_UART_Transmit_def)

subsection \<open>Lemmas about the line editor\<close>

lemma line_len_step_le:
  "unat (line_len s) \<le> 63 \<Longrightarrow> unat (line_len (console_process_byte c s)) \<le> 63"
  by (auto simp: console_process_byte_def console_handle_command_tx HAL_UART_Transmit_def
        Let_def unat_dec unat_inc LINE_BUF_SIZE_def)

lemma line_len_bytes_le:
  "unat (line_len s) \<le> 63 \<Longrightarrow> unat (line_len (console_process_bytes bs s)) \<le> 63"
  by (induction bs arbitrary: s) (simp_all add: line_len_step_le)

lemma console_process_bytes_append:
  "console_process_bytes (as @ bs) s = console_process_bytes bs (console_process_bytes as s)"
  by (induction as arbitrary: s) simp_all

lemma printable_nonzero: "printable c \<Longrightarrow> c \<noteq> 0"
  by (auto simp: printable_def)

lemma c_string_terminated:
  "list_all printable cs \<Longrightarrow> take (length cs) buf = cs \<Longrightarrow> length cs < length buf \<Longrightarrow>
   c_string (buf[length cs := 0]) = cs"
proof -
  assume p: "list_all printable cs" and t: "take (length cs) buf = cs" and l: "length cs < length buf"
  have "buf = cs @ drop (length cs) buf" using t by (metis append_take_drop_id)
  moreover obtain r rs where "drop (length cs) buf = r # rs"
    using l by (cases "drop (length cs) buf") simp_all
  ultimately have b: "buf = cs @ r # rs" by simp
  have "buf[length cs := 0] = cs @ 0 # rs"
    by (subst b) (simp add: list_update_append)
  moreover have "\<forall>x\<in>set cs. x \<noteq> 0" using p by (auto simp: list_all_iff printable_nonzero)
  ultimately show ?thesis by (simp add: c_string_def)
qed


lemma feed_printable:
  "list_all printable cs \<Longrightarrow>
   unat (line_len s) \<le> 63 \<Longrightarrow> length (line_buf s) = 64 \<Longrightarrow>
   unat (line_len (console_process_bytes cs s))
      = unat (line_len s) + min (length cs) (63 - unat (line_len s))
   \<and> uart_tx (console_process_bytes cs s)
      = uart_tx s @ take (63 - unat (line_len s)) cs
   \<and> take (unat (line_len (console_process_bytes cs s))) (line_buf (console_process_bytes cs s))
      = take (unat (line_len s)) (line_buf s) @ take (63 - unat (line_len s)) cs
   \<and> length (line_buf (console_process_bytes cs s)) = 64"
proof (induction cs arbitrary: s)
  case Nil
  then show ?case by simp
next
  case (Cons c cs)
  let ?n = "unat (line_len s)"
  have pc: "0x20 \<le> c" "c \<le> 0x7E" using Cons.prems(1) by (simp_all add: printable_def)
  show ?case
  proof (cases "?n < 63")
    case True
    let ?s1 = "console_process_byte c s"
    have s1: "?s1 = s\<lparr>line_buf := (line_buf s)[?n := c], line_len := line_len s + 1,
                 uart_tx := uart_tx s @ [c]\<rparr>"
      using True by (simp add: printable_step [OF pc] LINE_BUF_SIZE_def)
    have n1: "unat (line_len ?s1) = ?n + 1" using True by (simp add: s1 unat_inc)
    have l1: "length (line_buf ?s1) = 64" using Cons.prems(3) by (simp add: s1)
    have ih: "unat (line_len (console_process_bytes cs ?s1))
      = unat (line_len ?s1) + min (length cs) (63 - unat (line_len ?s1))
   \<and> uart_tx (console_process_bytes cs ?s1)
      = uart_tx ?s1 @ take (63 - unat (line_len ?s1)) cs
   \<and> take (unat (line_len (console_process_bytes cs ?s1))) (line_buf (console_process_bytes cs ?s1))
      = take (unat (line_len ?s1)) (line_buf ?s1) @ take (63 - unat (line_len ?s1)) cs
   \<and> length (line_buf (console_process_bytes cs ?s1)) = 64"
      using Cons.prems(1) True n1 l1 by (intro Cons.IH) simp_all
    have tk: "take (?n + 1) (line_buf ?s1) = take ?n (line_buf s) @ [c]"
      using True Cons.prems(3) by (simp add: s1 take_Suc_conv_app_nth)
    have tc: "take (63 - ?n) (c # cs) = c # take (63 - (?n + 1)) cs"
    proof -
      from True obtain m where m: "63 - ?n = Suc m" by (cases "63 - ?n") simp_all
      then have "63 - (?n + 1) = m" by simp
      with m show ?thesis by simp
    qed
    let ?s' = "console_process_bytes cs ?s1"
    have A: "unat (line_len ?s') = ?n + min (length (c # cs)) (63 - ?n)"
    proof -
      have "unat (line_len ?s') = (?n + 1) + min (length cs) (63 - (?n + 1))"
        using ih unfolding n1 by blast
      then show ?thesis using True by simp
    qed
    have B: "uart_tx ?s' = uart_tx s @ take (63 - ?n) (c # cs)"
    proof -
      have "uart_tx ?s' = uart_tx ?s1 @ take (63 - unat (line_len ?s1)) cs"
        using ih by blast
      then show ?thesis unfolding n1 tc by (simp add: s1)
    qed
    have C: "take (unat (line_len ?s')) (line_buf ?s')
               = take ?n (line_buf s) @ take (63 - ?n) (c # cs)"
    proof -
      have "take (unat (line_len ?s')) (line_buf ?s')
              = take (unat (line_len ?s1)) (line_buf ?s1) @ take (63 - unat (line_len ?s1)) cs"
        using ih by blast
      then show ?thesis unfolding n1 tk tc by simp
    qed
    have D: "length (line_buf ?s') = 64"
      using ih by blast
    show ?thesis
      unfolding console_process_bytes.simps using A B C D by blast
  next
    case False
    then have n: "?n = 63" using Cons.prems(2) by simp
    have s1: "console_process_byte c s = s"
      using n by (simp add: printable_step [OF pc] LINE_BUF_SIZE_def)
    show ?thesis
      using Cons.IH [of s] Cons.prems n by (auto simp: s1)
  qed
qed



lemma feed_printable_len:
  "list_all printable cs \<Longrightarrow> unat (line_len s) \<le> 63 \<Longrightarrow> length (line_buf s) = 64 \<Longrightarrow>
   unat (line_len (console_process_bytes cs s))
      = unat (line_len s) + min (length cs) (63 - unat (line_len s))"
  using feed_printable [of cs s] by blast

lemma feed_printable_tx:
  "list_all printable cs \<Longrightarrow> unat (line_len s) \<le> 63 \<Longrightarrow> length (line_buf s) = 64 \<Longrightarrow>
   uart_tx (console_process_bytes cs s) = uart_tx s @ take (63 - unat (line_len s)) cs"
  using feed_printable [of cs s] by blast

lemma feed_printable_take:
  "list_all printable cs \<Longrightarrow> unat (line_len s) \<le> 63 \<Longrightarrow> length (line_buf s) = 64 \<Longrightarrow>
   take (unat (line_len (console_process_bytes cs s))) (line_buf (console_process_bytes cs s))
      = take (unat (line_len s)) (line_buf s) @ take (63 - unat (line_len s)) cs"
  using feed_printable [of cs s] by blast

lemma feed_printable_length:
  "list_all printable cs \<Longrightarrow> unat (line_len s) \<le> 63 \<Longrightarrow> length (line_buf s) = 64 \<Longrightarrow>
   length (line_buf (console_process_bytes cs s)) = 64"
  using feed_printable [of cs s] by blast

lemma enter_empty:
  "c = 0x0D \<or> c = 0x0A \<Longrightarrow> line_len s = 0 \<Longrightarrow>
   console_process_byte c s = s\<lparr>uart_tx := uart_tx s @ [0x0D, 0x0A]\<rparr>"
  by (auto simp: console_process_byte_def HAL_UART_Transmit_def)

lemma line_complete:
  assumes p: "list_all printable cs" and ne: "cs \<noteq> []" and le: "length cs \<le> 63"
    and z: "line_len s = 0" and lb: "length (line_buf s) = 64"
    and c: "c = 0x0D \<or> c = 0x0A"
  shows "uart_tx (console_process_bytes (cs @ [c]) s)
           = uart_tx s @ cs @ [0x0D, 0x0A]
             @ (if cs = bytes_of ''help'' then help_text else []) @ bytes_of ''> ''"
    and "line_len (console_process_bytes (cs @ [c]) s) = 0"
    and "length (line_buf (console_process_bytes (cs @ [c]) s)) = 64"
proof -
  let ?s1 = "console_process_bytes cs s"
  have n: "unat (line_len ?s1) = length cs"
    using feed_printable_len [OF p, of s] z lb le by simp
  have tx: "uart_tx ?s1 = uart_tx s @ cs"
    using feed_printable_tx [OF p, of s] z lb le by simp
  have l1: "length (line_buf ?s1) = 64"
    using feed_printable_length [OF p, of s] z lb by simp
  have tk: "take (length cs) (line_buf ?s1) = cs"
    using feed_printable_take [OF p, of s] z lb le unfolding n by simp
  have pos: "0 < unat (line_len ?s1)" using n ne by simp
  have cs: "c_string ((line_buf ?s1)[length cs := 0]) = cs"
    using p tk le l1 by (intro c_string_terminated) simp_all
  have e: "console_process_bytes (cs @ [c]) s = console_process_byte c ?s1"
    by (simp add: console_process_bytes_append)
  show "uart_tx (console_process_bytes (cs @ [c]) s)
           = uart_tx s @ cs @ [0x0D, 0x0A]
             @ (if cs = bytes_of ''help'' then help_text else []) @ bytes_of ''> ''"
    unfolding e enter_nonempty [OF c pos] n cs by (simp add: tx)
  show "line_len (console_process_bytes (cs @ [c]) s) = 0"
    unfolding e enter_nonempty [OF c pos] by simp
  show "length (line_buf (console_process_bytes (cs @ [c]) s)) = 64"
    unfolding e enter_nonempty [OF c pos] by (simp add: l1)
qed

lemma line_then_crlf:
  assumes p: "list_all printable cs" and ne: "cs \<noteq> []" and le: "length cs \<le> 63"
    and z: "line_len s = 0" and lb: "length (line_buf s) = 64"
  shows "uart_tx (console_process_bytes (cs @ [0x0D, 0x0A]) s)
           = uart_tx s @ cs @ [0x0D, 0x0A]
             @ (if cs = bytes_of ''help'' then help_text else []) @ bytes_of ''> ''
             @ [0x0D, 0x0A]"
proof -
  let ?s1 = "console_process_bytes (cs @ [0x0D]) s"
  have a: "cs @ [0x0D, 0x0A] = (cs @ [0x0D]) @ [0x0A :: byte]" by simp
  have z1: "line_len ?s1 = 0" using p ne le z lb by (intro line_complete) simp_all
  have tx: "uart_tx ?s1 = uart_tx s @ cs @ [0x0D, 0x0A]
             @ (if cs = bytes_of ''help'' then help_text else []) @ bytes_of ''> ''"
    using p ne le z lb by (intro line_complete) simp_all
  show ?thesis
    unfolding a console_process_bytes_append [of "cs @ [0x0D]"]
    using enter_empty [of "0x0A" ?s1] z1 tx by simp
qed

lemma erase_step:
  "c = 0x08 \<or> c = 0x7F \<Longrightarrow>
   console_process_byte c s =
     (if 0 < unat (line_len s)
      then s\<lparr>line_len := line_len s - 1, uart_tx := uart_tx s @ [0x08, 0x20, 0x08]\<rparr>
      else s)"
  by (auto simp: console_process_byte_def HAL_UART_Transmit_def)

lemma console_process_bytes_snoc:
  "console_process_bytes (bs @ [c]) s = console_process_byte c (console_process_bytes bs s)"
  by (simp add: console_process_bytes_append)

lemma boot_line:
  "line_len boot_state = 0" "length (line_buf boot_state) = 64" "uart_tx boot_state = []"
  by (simp_all add: boot_state_def LINE_BUF_SIZE_def)

lemma boot_ab:
  "uart_tx (console_process_bytes [0x61, 0x62] boot_state) = [0x61, 0x62]"
  "line_len (console_process_bytes [0x61, 0x62] boot_state) = 2"
  by (simp_all add: printable_step boot_state_def LINE_BUF_SIZE_def)

subsection \<open>Lemmas about the ring reader\<close>

lemma dma_pos_of_unat:
  assumes "unat counter \<le> 128"
  shows "unat (dma_pos_of counter) = 128 - unat counter"
proof -
  have le: "counter \<le> 128" using assms by (simp add: word_le_nat_alt)
  have "unat ((128 :: 32 word) - counter) = 128 - unat counter"
    using le by (simp add: unat_sub)
  then show ?thesis
    using assms by (simp add: dma_pos_of_def UART_RX_DMA_BUF_SIZE_def unsigned_ucast_eq take_bit_nat_eq_self)
qed

lemma rx_spans_nat:
  assumes l: "unat last_pos \<le> 128"
  shows "rx_spans last_pos dma_pos =
     (if unat dma_pos = unat last_pos then []
      else if unat last_pos < unat dma_pos then [(unat last_pos, unat dma_pos - unat last_pos)]
      else if 0 < unat dma_pos then [(unat last_pos, 128 - unat last_pos), (0, unat dma_pos)]
      else [(unat last_pos, 128 - unat last_pos)])"
proof -
  have le: "last_pos \<le> 128" using l by (simp add: word_le_nat_alt)
  have a: "unat ((128 :: 16 word) - last_pos) = 128 - unat last_pos"
    using le by (simp add: unat_sub)
  have b: "unat (dma_pos - last_pos) = unat dma_pos - unat last_pos" if "last_pos < dma_pos"
    using that by (simp add: unat_sub)
  have c: "0 < dma_pos \<longleftrightarrow> 0 < unat dma_pos"
    by (simp add: word_less_nat_alt)
  have d: "dma_pos = last_pos \<longleftrightarrow> unat dma_pos = unat last_pos"
    by (simp add: word_unat_eq_iff)
  show ?thesis
    unfolding rx_spans_def UART_RX_DMA_BUF_SIZE_def
    using a b c d by (auto simp: word_less_nat_alt)
qed

lemma dma_write_length [simp]: "length (dma_write pos ws buf) = length buf"
  by (induction ws arbitrary: pos buf) simp_all

lemma dma_write_append:
  "dma_write pos (xs @ ys) buf
     = dma_write ((pos + length xs) mod UART_RX_DMA_BUF_SIZE) ys (dma_write pos xs buf)"
  if "pos < UART_RX_DMA_BUF_SIZE"
  using that
proof (induction xs arbitrary: pos buf)
  case Nil
  then show ?case by simp
next
  case (Cons x xs)
  have "(pos + 1) mod UART_RX_DMA_BUF_SIZE < UART_RX_DMA_BUF_SIZE"
    by (simp add: UART_RX_DMA_BUF_SIZE_def)
  from Cons.IH [OF this]
  show ?case by (simp add: mod_simps)
qed

lemma dma_write_nowrap:
  "pos + length ws \<le> UART_RX_DMA_BUF_SIZE \<Longrightarrow> length buf = UART_RX_DMA_BUF_SIZE \<Longrightarrow>
   dma_write pos ws buf = take pos buf @ ws @ drop (pos + length ws) buf"
proof (induction ws arbitrary: pos buf)
  case Nil
  then show ?case by simp
next
  case (Cons w ws)
  have p: "pos < length buf" using Cons.prems by simp
  show ?case
  proof (cases ws)
    case Nil
    then show ?thesis using p by (simp add: upd_conv_take_nth_drop)
  next
    case (Cons v vs)
    then have lt: "pos + 1 < UART_RX_DMA_BUF_SIZE" using Cons.prems by simp
    then have m: "Suc pos mod UART_RX_DMA_BUF_SIZE = Suc pos" by simp
    have "dma_write (pos + 1) ws (buf[pos := w])
            = take (pos + 1) (buf[pos := w]) @ ws @ drop (pos + 1 + length ws) (buf[pos := w])"
      using Cons.prems by (intro Cons.IH) simp_all
    then show ?thesis
      using p by (simp add: m take_Suc_conv_app_nth)
  qed
qed

lemma fold_feed_span:
  "fold (feed_span buf) spans s
     = console_process_bytes (concat (map (\<lambda>sp. rx_slice (fst sp) (snd sp) buf) spans)) s"
  by (induction spans arbitrary: s) (simp_all add: feed_span_def console_process_bytes_append)

lemma replay_nowrap:
  assumes lb: "length buf0 = 128" and nw: "l + length ws \<le> 128"
  shows "rx_slice l (length ws) (dma_write l ws buf0) = ws"
proof -
  have "dma_write l ws buf0 = take l buf0 @ ws @ drop (l + length ws) buf0"
    using lb nw by (intro dma_write_nowrap) (simp_all add: UART_RX_DMA_BUF_SIZE_def)
  moreover have "length (take l buf0) = l" using lb nw by simp
  ultimately show ?thesis by (simp add: rx_slice_def)
qed

lemma replay_wrap:
  assumes lb: "length buf0 = 128" and l: "l < 128" and n: "length ws < 128"
    and w: "128 \<le> l + length ws"
  shows "rx_slice l (128 - l) (dma_write l ws buf0)
           @ rx_slice 0 (l + length ws - 128) (dma_write l ws buf0) = ws"
proof -
  let ?ws1 = "take (128 - l) ws" and ?ws2 = "drop (128 - l) ws"
  let ?h = "l + length ws - 128"
  have l1: "length ?ws1 = 128 - l" using w by simp
  have l2: "length ?ws2 = ?h" using w l by simp
  have hl: "?h < l" using n w by simp
  let ?b1 = "dma_write l ?ws1 buf0"
  have b1: "?b1 = take l buf0 @ ?ws1"
    using dma_write_nowrap [of l ?ws1 buf0] lb l l1
    by (simp add: UART_RX_DMA_BUF_SIZE_def)
  have "dma_write l ws buf0 = dma_write l (?ws1 @ ?ws2) buf0" by simp
  also have "\<dots> = dma_write ((l + length ?ws1) mod UART_RX_DMA_BUF_SIZE) ?ws2 ?b1"
    using l by (intro dma_write_append) (simp add: UART_RX_DMA_BUF_SIZE_def)
  also have "(l + length ?ws1) mod UART_RX_DMA_BUF_SIZE = 0"
    using l l1 by (simp add: UART_RX_DMA_BUF_SIZE_def)
  also have "dma_write 0 ?ws2 ?b1 = take 0 ?b1 @ ?ws2 @ drop (0 + length ?ws2) ?b1"
    using lb l2 hl l by (intro dma_write_nowrap) (simp_all add: UART_RX_DMA_BUF_SIZE_def)
  also have "\<dots> = ?ws2 @ drop ?h (take l buf0) @ ?ws1"
    using l2 hl lb l by (simp add: b1)
  finally have b: "dma_write l ws buf0 = ?ws2 @ drop ?h (take l buf0) @ ?ws1" .
  have len_mid: "length (?ws2 @ drop ?h (take l buf0)) = l"
    using l2 hl lb l by simp
  have s1: "rx_slice l (128 - l) (dma_write l ws buf0) = ?ws1"
  proof -
    define m where "m = ?ws2 @ drop ?h (take l buf0)"
    have lm: "length m = l" using len_mid by (simp add: m_def)
    have "dma_write l ws buf0 = m @ ?ws1" using b by (simp add: m_def)
    then show ?thesis using lm l1 by (simp add: rx_slice_def)
  qed
  have s2: "rx_slice 0 ?h (dma_write l ws buf0) = ?ws2"
    unfolding b rx_slice_def using l2 by simp
  show ?thesis unfolding s1 s2 by simp
qed

lemma replay_spans:
  assumes lb: "length buf0 = 128" and l: "unat last_pos < 128" and n: "length ws < 128"
    and h: "unat dma_pos = (unat last_pos + length ws) mod 128"
  shows "concat (map (\<lambda>sp. rx_slice (fst sp) (snd sp) (dma_write (unat last_pos) ws buf0))
            (rx_spans last_pos dma_pos)) = ws"
proof (cases "unat last_pos + length ws < 128")
  case True
  then have h': "unat dma_pos = unat last_pos + length ws" using h by simp
  show ?thesis
  proof (cases "ws = []")
    case True
    then show ?thesis using l h' by (simp add: rx_spans_nat)
  next
    case False
    then have "unat last_pos < unat dma_pos" using h' by simp
    then show ?thesis
      using l h' replay_nowrap [OF lb, of "unat last_pos" ws] True
      by (simp add: rx_spans_nat)
  qed
next
  case False
  then have w: "128 \<le> unat last_pos + length ws" by simp
  have h': "unat dma_pos = unat last_pos + length ws - 128"
    using h w l n by (simp add: mod_if)
  have hl: "unat dma_pos < unat last_pos" using h' n w by simp
  have r: "rx_slice (unat last_pos) (128 - unat last_pos) (dma_write (unat last_pos) ws buf0)
           @ rx_slice 0 (unat dma_pos) (dma_write (unat last_pos) ws buf0) = ws"
    using replay_wrap [OF lb l n w] h' by simp
  show ?thesis
  proof (cases "0 < unat dma_pos")
    case True
    then show ?thesis using l hl r by (simp add: rx_spans_nat)
  next
    case False
    then have "rx_slice 0 (unat dma_pos) (dma_write (unat last_pos) ws buf0) = []"
      by (simp add: rx_slice_def)
    then show ?thesis using l hl r False by (simp add: rx_spans_nat)
  qed
qed

subsection \<open>The spans of a poll\<close>

text \<open>
  C1, as the code has it. Take a poll with \<open>rx_pending\<close> set, the read cursor
  \<open>last_pos\<close> below the capacity and a counter between 1 and the capacity, so that
  the write position \<open>head\<close> is the capacity minus the counter. The calls of
  \<open>console_process_bytes\<close> are then: none when \<open>head = last_pos\<close>; one, for
  \<open>[last_pos, head)\<close>, when \<open>head > last_pos\<close>; and when \<open>head < last_pos\<close>
  first one for \<open>[last_pos, capacity)\<close> and then, only if \<open>head > 0\<close>, one for
  \<open>[0, head)\<close>. Spans are written as offset and length. Afterwards
  \<open>dma_last_pos\<close> is \<open>head\<close>. If the ring holds the bytes \<open>ws\<close> (fewer than the
  capacity) that the hardware wrote from \<open>last_pos\<close> on, ending at \<open>head\<close>, then
  the spans read in order are exactly \<open>ws\<close>, and the poll does to the line editor
  what processing \<open>ws\<close> front to back does.
\<close>

theorem task_console_spans_replay:
  assumes pend: "rx_pending s \<noteq> 0"
    and l: "unat (dma_last_pos s) < UART_RX_DMA_BUF_SIZE"
    and c1: "1 \<le> unat counter" and c2: "unat counter \<le> UART_RX_DMA_BUF_SIZE"
  shows
    "let last_pos = unat (dma_last_pos s);
         head = unat (dma_pos_of counter);
         spans = rx_spans (dma_last_pos s) (dma_pos_of counter);
         s' = task_console counter s
     in head = UART_RX_DMA_BUF_SIZE - unat counter
      \<and> spans =
          (if head = last_pos then []
           else if last_pos < head then [(last_pos, head - last_pos)]
           else if 0 < head then
             [(last_pos, UART_RX_DMA_BUF_SIZE - last_pos), (0, head)]
           else [(last_pos, UART_RX_DMA_BUF_SIZE - last_pos)])
      \<and> s' = (fold (feed_span (uart_rx_dma_buf s)) spans (s\<lparr>rx_pending := 0\<rparr>))
               \<lparr>dma_last_pos := dma_pos_of counter\<rparr>
      \<and> unat (dma_last_pos s') = head
      \<and> (length buf0 = UART_RX_DMA_BUF_SIZE \<and> length ws < UART_RX_DMA_BUF_SIZE
           \<and> uart_rx_dma_buf s = dma_write last_pos ws buf0
           \<and> head = (last_pos + length ws) mod UART_RX_DMA_BUF_SIZE
          \<longrightarrow> concat (map (\<lambda>sp. rx_slice (fst sp) (snd sp) (uart_rx_dma_buf s)) spans) = ws
            \<and> s' = (console_process_bytes ws (s\<lparr>rx_pending := 0\<rparr>))
                     \<lparr>dma_last_pos := dma_pos_of counter\<rparr>)"
proof -
  let ?l = "unat (dma_last_pos s)" and ?h = "unat (dma_pos_of counter)"
  let ?spans = "rx_spans (dma_last_pos s) (dma_pos_of counter)"
  have l': "?l < 128" using l by (simp add: UART_RX_DMA_BUF_SIZE_def)
  have c2': "unat counter \<le> 128" using c2 by (simp add: UART_RX_DMA_BUF_SIZE_def)
  have h: "?h = 128 - unat counter" using c2' by (rule dma_pos_of_unat)
  have sp: "?spans =
          (if ?h = ?l then []
           else if ?l < ?h then [(?l, ?h - ?l)]
           else if 0 < ?h then [(?l, 128 - ?l), (0, ?h)]
           else [(?l, 128 - ?l)])"
    using l' by (intro rx_spans_nat) simp
  have tc: "task_console counter s
          = (fold (feed_span (uart_rx_dma_buf s)) ?spans (s\<lparr>rx_pending := 0\<rparr>))
               \<lparr>dma_last_pos := dma_pos_of counter\<rparr>"
    using pend by (rule task_console_as_fold)
  have lp: "unat (dma_last_pos (task_console counter s)) = ?h"
    unfolding tc by simp
  have rp: "concat (map (\<lambda>sp. rx_slice (fst sp) (snd sp) (uart_rx_dma_buf s)) ?spans) = ws
            \<and> task_console counter s = (console_process_bytes ws (s\<lparr>rx_pending := 0\<rparr>))
                     \<lparr>dma_last_pos := dma_pos_of counter\<rparr>"
    if a: "length buf0 = 128" "length ws < 128" "uart_rx_dma_buf s = dma_write ?l ws buf0"
          "?h = (?l + length ws) mod 128"
  proof -
    have "concat (map (\<lambda>sp. rx_slice (fst sp) (snd sp) (uart_rx_dma_buf s)) ?spans) = ws"
      unfolding a(3) using a(1) l' a(2) a(4) by (rule replay_spans)
    then show ?thesis unfolding tc fold_feed_span by simp
  qed
  show ?thesis
    unfolding Let_def UART_RX_DMA_BUF_SIZE_def
    using h sp tc lp rp by blast
qed

theorem task_console_spans_replay_witness:
  "let s0 = boot_state\<lparr>uart_rx_dma_buf := dma_write 126 [0x61, 0x62, 0x63] (uart_rx_dma_buf boot_state),
                        dma_last_pos := 126, rx_pending := 1\<rparr>
   in rx_pending s0 \<noteq> 0
    \<and> unat (dma_last_pos s0) < UART_RX_DMA_BUF_SIZE
    \<and> 1 \<le> unat (127 :: 32 word) \<and> unat (127 :: 32 word) \<le> UART_RX_DMA_BUF_SIZE
    \<and> length (uart_rx_dma_buf boot_state) = UART_RX_DMA_BUF_SIZE
    \<and> unat (dma_pos_of 127) = (126 + length [0x61, 0x62, 0x63 :: byte]) mod UART_RX_DMA_BUF_SIZE
    \<and> rx_spans (dma_last_pos s0) (dma_pos_of 127) = [(126, 2), (0, 1)]
    \<and> task_console 127 s0
        = (console_process_bytes [0x61, 0x62, 0x63] (s0\<lparr>rx_pending := 0\<rparr>))\<lparr>dma_last_pos := 1\<rparr>"
proof -
  define s0 where "s0 = boot_state\<lparr>uart_rx_dma_buf := dma_write 126 [0x61, 0x62, 0x63] (uart_rx_dma_buf boot_state),
                        dma_last_pos := 126, rx_pending := 1\<rparr>"
  have p: "rx_pending s0 \<noteq> 0" by (simp add: s0_def)
  have l: "unat (dma_last_pos s0) < UART_RX_DMA_BUF_SIZE"
    by (simp add: s0_def UART_RX_DMA_BUF_SIZE_def)
  have c: "1 \<le> unat (127 :: 32 word)" "unat (127 :: 32 word) \<le> UART_RX_DMA_BUF_SIZE"
    by (simp_all add: UART_RX_DMA_BUF_SIZE_def)
  have d: "dma_pos_of 127 = 1" by (simp add: dma_pos_of_def UART_RX_DMA_BUF_SIZE_def)
  have b: "uart_rx_dma_buf s0 = dma_write 126 [0x61, 0x62, 0x63] (uart_rx_dma_buf boot_state)"
    "dma_last_pos s0 = 126"
    by (simp_all add: s0_def)
  have lb: "length (uart_rx_dma_buf boot_state) = UART_RX_DMA_BUF_SIZE"
    by (simp add: boot_state_def)
  note T = task_console_spans_replay
             [OF p l c, of "uart_rx_dma_buf boot_state" "[0x61, 0x62, 0x63]", unfolded Let_def]
  have sp: "rx_spans (dma_last_pos s0) (dma_pos_of 127) = [(126, 2), (0, 1)]"
    using T [THEN conjunct2, THEN conjunct1]
    by (simp add: d b UART_RX_DMA_BUF_SIZE_def)
  have hd: "unat (dma_pos_of 127)
              = (126 + length [0x61, 0x62, 0x63 :: byte]) mod UART_RX_DMA_BUF_SIZE"
    by (simp add: d UART_RX_DMA_BUF_SIZE_def)
  have H: "length (uart_rx_dma_buf boot_state) = UART_RX_DMA_BUF_SIZE
         \<and> length [0x61, 0x62, 0x63 :: byte] < UART_RX_DMA_BUF_SIZE
         \<and> uart_rx_dma_buf s0
             = dma_write (unat (dma_last_pos s0)) [0x61, 0x62, 0x63] (uart_rx_dma_buf boot_state)
         \<and> unat (dma_pos_of 127)
             = (unat (dma_last_pos s0) + length [0x61, 0x62, 0x63 :: byte])
               mod UART_RX_DMA_BUF_SIZE"
    using lb hd by (simp add: b UART_RX_DMA_BUF_SIZE_def)
  have tc: "task_console 127 s0
        = (console_process_bytes [0x61, 0x62, 0x63] (s0\<lparr>rx_pending := 0\<rparr>))\<lparr>dma_last_pos := 1\<rparr>"
    using T [THEN conjunct2, THEN conjunct2, THEN conjunct2, THEN conjunct2, THEN mp, OF H,
             THEN conjunct2]
    unfolding d .
  show ?thesis
    unfolding Let_def s0_def [symmetric] using p l c lb hd sp tc by blast
qed

text \<open>
  With the read cursor at 5 and the write position wrapped to exactly 0 (counter equal
  to the capacity), \<open>head < last_pos\<close> holds and the poll hands over a single span,
  \<open>[5, 128)\<close>: the guard \<open>dma_pos > 0\<close> skips the empty span \<open>[0, 0)\<close>.
  And when a full ring of 128 bytes arrives between two polls the write position is
  back where it was, no span is handed over, and the bytes are not replayed.
\<close>

theorem two_spans_counterexample:
  "dma_pos_of 128 < 5
   \<and> rx_spans 5 (dma_pos_of 128) = [(5, 123)]
   \<and> length (rx_spans 5 (dma_pos_of 128)) \<noteq> 2
   \<and> task_console 128 (boot_state\<lparr>dma_last_pos := 5, rx_pending := 1\<rparr>)
       = (console_process_bytes (rx_slice 5 123 (uart_rx_dma_buf boot_state))
            (boot_state\<lparr>dma_last_pos := 5, rx_pending := 0\<rparr>))\<lparr>dma_last_pos := 0\<rparr>
   \<and> unat (dma_pos_of 128)
       = (0 + length (replicate 128 (0x61 :: byte))) mod UART_RX_DMA_BUF_SIZE
   \<and> concat (map (\<lambda>sp. rx_slice (fst sp) (snd sp)
                         (dma_write 0 (replicate 128 0x61) (uart_rx_dma_buf boot_state)))
               (rx_spans 0 (dma_pos_of 128)))
       \<noteq> replicate 128 0x61"
  by (simp add: dma_pos_of_def rx_spans_def task_console_def UART_RX_DMA_BUF_SIZE_def
        boot_state_def Let_def)

subsection \<open>The cursors stay inside the ring\<close>

text \<open>
  C2, as the code has it. For a counter between 1 and the capacity the write position
  is the capacity minus the counter and lies in \<open>[0, capacity)\<close>, and a poll that
  starts with the read cursor in \<open>[0, capacity)\<close> leaves it there. The cursor starts
  at 0 and only \<open>task_console\<close> assigns it.
\<close>

theorem cursors_in_range:
  "unat (dma_last_pos s) < UART_RX_DMA_BUF_SIZE \<Longrightarrow>
   1 \<le> unat counter \<Longrightarrow> unat counter \<le> UART_RX_DMA_BUF_SIZE \<Longrightarrow>
   unat (dma_pos_of counter) = UART_RX_DMA_BUF_SIZE - unat counter
   \<and> unat (dma_pos_of counter) < UART_RX_DMA_BUF_SIZE
   \<and> unat (dma_last_pos (task_console counter s)) < UART_RX_DMA_BUF_SIZE"
proof -
  assume l: "unat (dma_last_pos s) < UART_RX_DMA_BUF_SIZE"
    and c1: "1 \<le> unat counter" and c2: "unat counter \<le> UART_RX_DMA_BUF_SIZE"
  have h: "unat (dma_pos_of counter) = 128 - unat counter"
    using c2 by (intro dma_pos_of_unat) (simp add: UART_RX_DMA_BUF_SIZE_def)
  have "dma_last_pos (task_console counter s) = dma_last_pos s
        \<or> dma_last_pos (task_console counter s) = dma_pos_of counter"
    by (simp add: task_console_def Let_def)
  then show ?thesis
    using l c1 h by (auto simp: UART_RX_DMA_BUF_SIZE_def)
qed

theorem cursors_in_range_witness:
  "unat (dma_last_pos (boot_state\<lparr>rx_pending := 1\<rparr>)) < UART_RX_DMA_BUF_SIZE
   \<and> 1 \<le> unat (100 :: 32 word) \<and> unat (100 :: 32 word) \<le> UART_RX_DMA_BUF_SIZE
   \<and> unat (dma_pos_of 100) = 28
   \<and> unat (dma_last_pos (task_console 100 (boot_state\<lparr>rx_pending := 1\<rparr>))) < UART_RX_DMA_BUF_SIZE"
  using cursors_in_range [of "boot_state\<lparr>rx_pending := 1\<rparr>" 100]
  by (simp add: boot_state_def UART_RX_DMA_BUF_SIZE_def)

text \<open>
  A counter of 0 gives the write position 128, which is outside \<open>[0, capacity)\<close>, and
  the poll stores it in \<open>dma_last_pos\<close>.
\<close>

theorem head_at_counter_zero_counterexample:
  "unat (0 :: 32 word) \<le> UART_RX_DMA_BUF_SIZE
   \<and> \<not> unat (dma_pos_of 0) < UART_RX_DMA_BUF_SIZE
   \<and> \<not> unat (dma_last_pos (task_console 0 (boot_state\<lparr>rx_pending := 1\<rparr>)))
         < UART_RX_DMA_BUF_SIZE"
  by (simp add: dma_pos_of_def task_console_def UART_RX_DMA_BUF_SIZE_def boot_state_def Let_def)

subsection \<open>Polling with nothing pending\<close>

text \<open>
  C3. When \<open>rx_pending\<close> is false, \<open>task_console\<close> returns the state it was given:
  \<open>dma_last_pos\<close>, \<open>line_buf\<close> and \<open>line_len\<close> keep their values and nothing is
  added to the transmitted bytes.
\<close>

theorem task_console_not_pending:
  "rx_pending s = 0 \<Longrightarrow> task_console counter s = s"
  by (simp add: task_console_def)

theorem task_console_not_pending_witness:
  "rx_pending boot_state = 0 \<and> task_console 100 boot_state = boot_state"
  using task_console_not_pending [of boot_state 100] by (simp add: boot_state_def)

subsection \<open>Erase bytes\<close>

text \<open>
  C5. When \<open>console_process_bytes\<close> reaches an erase byte (\<open>0x08\<close> or \<open>0x7F\<close>)
  after any bytes \<open>bs\<close>: if the line is then non-empty, \<open>line_len\<close> is lowered by
  exactly one and the three bytes \<open>"\b \b"\<close> are transmitted, with nothing else
  changed; if the line is empty the state stays as it is, so there is no output and
  \<open>line_len\<close> does not wrap below zero.
\<close>

theorem erase_byte:
  "c = 0x08 \<or> c = 0x7F \<Longrightarrow>
   console_process_bytes (bs @ [c]) s =
     (if 0 < unat (line_len (console_process_bytes bs s))
      then (console_process_bytes bs s)
             \<lparr>line_len := line_len (console_process_bytes bs s) - 1,
              uart_tx := uart_tx (console_process_bytes bs s) @ [0x08, 0x20, 0x08]\<rparr>
      else console_process_bytes bs s)
   \<and> unat (line_len (console_process_bytes (bs @ [c]) s))
       = unat (line_len (console_process_bytes bs s)) - 1"
  by (simp add: console_process_bytes_snoc erase_step unat_dec)

theorem erase_byte_witness:
  "((0x08 :: byte) = 0x08 \<or> (0x08 :: byte) = 0x7F)
   \<and> uart_tx (console_process_bytes ([0x61, 0x62] @ [0x08]) boot_state)
       = [0x61, 0x62, 0x08, 0x20, 0x08]
   \<and> line_len (console_process_bytes ([0x61, 0x62] @ [0x08]) boot_state) = 1
   \<and> ((0x7F :: byte) = 0x08 \<or> (0x7F :: byte) = 0x7F)
   \<and> console_process_bytes ([] @ [0x7F]) boot_state = boot_state"
proof -
  have a: "uart_tx (console_process_bytes ([0x61, 0x62] @ [0x08]) boot_state)
             = [0x61, 0x62, 0x08, 0x20, 0x08]
           \<and> line_len (console_process_bytes ([0x61, 0x62] @ [0x08]) boot_state) = 1"
    using erase_byte [of "0x08" "[0x61, 0x62]" boot_state]
    by (simp add: boot_ab del: console_process_bytes.simps)
  have b: "console_process_bytes ([] @ [0x7F]) boot_state = boot_state"
    using erase_byte [of "0x7F" "[]" boot_state]
    by (simp add: boot_line)
  show ?thesis using a b by simp
qed

subsection \<open>Enter on an empty line\<close>

text \<open>
  C10. When \<open>console_process_bytes\<close> reaches a terminator byte (CR or LF) after any
  bytes \<open>bs\<close> that leave the line empty, it transmits the two bytes \<open>"\r\n"\<close> and
  does nothing else: the state is otherwise unchanged, \<open>console_handle_command\<close> is
  not called, and no prompt follows.
\<close>

theorem enter_on_empty_line:
  "c = 0x0D \<or> c = 0x0A \<Longrightarrow> line_len (console_process_bytes bs s) = 0 \<Longrightarrow>
   console_process_bytes (bs @ [c]) s
     = (console_process_bytes bs s)
         \<lparr>uart_tx := uart_tx (console_process_bytes bs s) @ [0x0D, 0x0A]\<rparr>"
  by (simp add: console_process_bytes_snoc enter_empty)

theorem enter_on_empty_line_witness:
  "((0x0A :: byte) = 0x0D \<or> (0x0A :: byte) = 0x0A)
   \<and> line_len (console_process_bytes [] boot_state) = 0
   \<and> console_process_bytes ([] @ [0x0A]) boot_state = boot_state\<lparr>uart_tx := [0x0D, 0x0A]\<rparr>
   \<and> line_len (console_process_bytes [0x0A] boot_state) = 0
   \<and> ((0x0D :: byte) = 0x0D \<or> (0x0D :: byte) = 0x0A)
   \<and> console_process_bytes ([0x0A] @ [0x0D]) boot_state
       = boot_state\<lparr>uart_tx := [0x0D, 0x0A, 0x0D, 0x0A]\<rparr>"
proof -
  have a: "console_process_bytes ([] @ [0x0A]) boot_state = boot_state\<lparr>uart_tx := [0x0D, 0x0A]\<rparr>"
    using enter_on_empty_line [of "0x0A" "[]" boot_state] by (simp add: boot_line)
  have a': "console_process_bytes [0x0A] boot_state = boot_state\<lparr>uart_tx := [0x0D, 0x0A]\<rparr>"
    using a by simp
  have z: "line_len (console_process_bytes [0x0A] boot_state) = 0"
    unfolding a' by (simp add: boot_line)
  have b: "console_process_bytes ([0x0A] @ [0x0D]) boot_state
       = boot_state\<lparr>uart_tx := [0x0D, 0x0A, 0x0D, 0x0A]\<rparr>"
    using enter_on_empty_line [of "0x0D" "[0x0A]" boot_state, OF _ z] unfolding a' by simp
  show ?thesis using a z b by (simp add: boot_line)
qed

subsection \<open>Line length and overflow\<close>

text \<open>
  C4. Whatever bytes are processed, \<open>line_len\<close> stays at most
  \<open>LINE_BUF_SIZE - 1 = 63\<close>. Feeding printable bytes \<open>cs\<close> to a line of length
  \<open>n\<close> appends the first \<open>63 - n\<close> of them, echoes exactly those, and leaves what
  was in the line before untouched; a printable byte that meets a full line is dropped
  and the state stays as it was, so the line is neither reset nor altered.
\<close>

theorem line_len_bounded_overflow_dropped:
  assumes "unat (line_len s) \<le> LINE_BUF_SIZE - 1"
  shows "unat (line_len (console_process_bytes bs s)) \<le> LINE_BUF_SIZE - 1
     \<and> (list_all printable cs \<and> length (line_buf s) = LINE_BUF_SIZE \<longrightarrow>
          unat (line_len (console_process_bytes cs s))
            = min (unat (line_len s) + length cs) (LINE_BUF_SIZE - 1)
        \<and> take (unat (line_len (console_process_bytes cs s)))
               (line_buf (console_process_bytes cs s))
            = take (unat (line_len s)) (line_buf s)
              @ take (LINE_BUF_SIZE - 1 - unat (line_len s)) cs
        \<and> uart_tx (console_process_bytes cs s)
            = uart_tx s @ take (LINE_BUF_SIZE - 1 - unat (line_len s)) cs)
     \<and> (printable c \<and> unat (line_len s) = LINE_BUF_SIZE - 1 \<longrightarrow>
          console_process_byte c s = s)"
proof -
  have n: "unat (line_len s) \<le> 63"
    using assms by (simp add: LINE_BUF_SIZE_def)
  have "unat (line_len (console_process_bytes bs s)) \<le> 63"
    using n by (rule line_len_bytes_le)
  moreover have "unat (line_len (console_process_bytes cs s))
       = min (unat (line_len s) + length cs) 63"
    if "list_all printable cs" "length (line_buf s) = 64"
    using feed_printable_len [OF that(1) n that(2)] n by simp
  moreover have "console_process_byte c s = s"
    if "printable c" "unat (line_len s) = 63"
    using that by (simp add: printable_step printable_def LINE_BUF_SIZE_def)
  moreover have "take (unat (line_len (console_process_bytes cs s)))
               (line_buf (console_process_bytes cs s))
            = take (unat (line_len s)) (line_buf s) @ take (63 - unat (line_len s)) cs"
    if "list_all printable cs" "length (line_buf s) = 64"
    using feed_printable_take [OF that(1) n that(2)] .
  moreover have "uart_tx (console_process_bytes cs s)
            = uart_tx s @ take (63 - unat (line_len s)) cs"
    if "list_all printable cs" "length (line_buf s) = 64"
    using feed_printable_tx [OF that(1) n that(2)] .
  ultimately show ?thesis
    unfolding LINE_BUF_SIZE_def by simp
qed

theorem line_len_bounded_overflow_dropped_witness:
  "unat (line_len boot_state) \<le> LINE_BUF_SIZE - 1
   \<and> list_all printable (replicate 70 0x61)
   \<and> length (line_buf boot_state) = LINE_BUF_SIZE
   \<and> unat (line_len (console_process_bytes (replicate 70 0x61) boot_state)) = 63
   \<and> take 63 (line_buf (console_process_bytes (replicate 70 0x61) boot_state))
       = replicate 63 0x61
   \<and> uart_tx (console_process_bytes (replicate 70 0x61) boot_state) = replicate 63 0x61
   \<and> printable 0x61
   \<and> unat (line_len (boot_state\<lparr>line_len := 63\<rparr>)) = LINE_BUF_SIZE - 1
   \<and> console_process_byte 0x61 (boot_state\<lparr>line_len := 63\<rparr>)
       = boot_state\<lparr>line_len := 63\<rparr>"
proof -
  have p: "list_all printable (replicate 70 0x61)"
    by (simp add: list_all_iff printable_def)
  have a: "unat (line_len (console_process_bytes (replicate 70 0x61) boot_state)) = 63"
    using line_len_bounded_overflow_dropped
            [of boot_state "replicate 70 0x61" "replicate 70 0x61" "0x61"]
    by (simp add: p boot_line LINE_BUF_SIZE_def)
  show ?thesis
    using line_len_bounded_overflow_dropped
            [of boot_state "replicate 70 0x61" "replicate 70 0x61" "0x61"]
          line_len_bounded_overflow_dropped
            [of "boot_state\<lparr>line_len := 63\<rparr>" "[]" "[]" "0x61"]
    unfolding a
    by (simp add: p boot_line LINE_BUF_SIZE_def printable_def)
qed

text \<open>
  The earlier revision has the same bound but a different overflow policy: a byte that
  meets a full line empties the line.
\<close>

lemma rev1_line_len_le:
  "unat (line_len s) \<le> 63 \<Longrightarrow> unat (line_len (console_process_byte_rev1 c s)) \<le> 63"
  by (auto simp: console_process_byte_rev1_def Let_def unat_inc LINE_BUF_SIZE_def)

lemma rev1_overflow_resets:
  "unat (line_len s) = LINE_BUF_SIZE - 1 \<Longrightarrow> c \<noteq> 0x0D \<Longrightarrow> c \<noteq> 0x0A \<Longrightarrow>
   console_process_byte_rev1 c s = s\<lparr>line_len := 0\<rparr>"
  by (simp add: console_process_byte_rev1_def)

subsection \<open>The prompt after a completed line\<close>

text \<open>
  C9. A terminator byte that completes a non-empty line transmits \<open>"\r\n"\<close>, then
  what the command writes (the help text for the line \<open>help\<close>, nothing for any other
  line), then the prompt \<open>"> "\<close>. The prompt is there in both cases, it comes last,
  and the bytes before it contain no \<open>'>'\<close>, so it is sent exactly once. The same
  holds for \<open>console_handle_command\<close> on any argument.
\<close>

theorem prompt_after_every_line:
  "c = 0x0D \<or> c = 0x0A \<Longrightarrow> 0 < unat (line_len s) \<Longrightarrow>
   (let cmd = c_string ((line_buf s)[unat (line_len s) := 0]);
        body = (if cmd = bytes_of ''help'' then help_text else [])
    in uart_tx (console_process_byte c s)
         = uart_tx s @ [0x0D, 0x0A] @ body @ bytes_of ''> ''
       \<and> 0x3E \<notin> set body
       \<and> line_len (console_process_byte c s) = 0)
   \<and> uart_tx (console_handle_command arg s)
       = uart_tx s @ (if c_string arg = bytes_of ''help'' then help_text else [])
         @ bytes_of ''> ''"
  by (simp add: enter_nonempty console_handle_command_tx Let_def)
     (simp add: help_text_def bytes_of_def)

theorem prompt_after_every_line_witness:
  "((0x0D :: byte) = 0x0D \<or> (0x0D :: byte) = 0x0A)
   \<and> 0 < unat (line_len (boot_state\<lparr>line_buf := bytes_of ''led'' @ replicate 61 0,
                                     line_len := 3\<rparr>))
   \<and> uart_tx (console_process_byte 0x0D
         (boot_state\<lparr>line_buf := bytes_of ''led'' @ replicate 61 0, line_len := 3\<rparr>))
       = [0x0D, 0x0A] @ bytes_of ''> ''
   \<and> uart_tx (console_handle_command (bytes_of ''help'' @ [0])
         (boot_state\<lparr>line_buf := bytes_of ''led'' @ replicate 61 0, line_len := 3\<rparr>))
       = help_text @ bytes_of ''> ''"
  using prompt_after_every_line
          [of "0x0D" "boot_state\<lparr>line_buf := bytes_of ''led'' @ replicate 61 0, line_len := 3\<rparr>"
              "bytes_of ''help'' @ [0]"]
  by (simp add: boot_state_def bytes_of_def c_string_def Let_def)

subsection \<open>The command scenarios\<close>

text \<open>
  What \<open>"help\r\n"\<close> produces from any state with an empty line: the echo, \<open>"\r\n"\<close>,
  the help text, the prompt, and a second \<open>"\r\n"\<close> for the LF byte, which is a
  terminator of its own and finds the line empty.
\<close>

lemma help_line_output:
  "line_len s = 0 \<Longrightarrow> length (line_buf s) = LINE_BUF_SIZE \<Longrightarrow>
   uart_tx (console_process_bytes (bytes_of ''help'' @ [0x0D, 0x0A]) s)
     = uart_tx s @ bytes_of ''help'' @ [0x0D, 0x0A] @ help_text @ bytes_of ''> ''
       @ [0x0D, 0x0A]"
  using line_then_crlf [of "bytes_of ''help''" s]
  by (simp add: bytes_of_def printable_def LINE_BUF_SIZE_def)

text \<open>
  C6. Fed \<open>"help\r\n"\<close> from the boot state, the console writes the echo \<open>"help"\<close>,
  \<open>"\r\n"\<close>, the single line \<open>"help, led off, led slow, led fast\r\n"\<close>, the prompt
  \<open>"> "\<close> and \<open>"\r\n"\<close>. The help text is a literal of \<open>console_handle_command\<close>;
  it is not the two lines \<open>"help - show this help\r\n"\<close> and
  \<open>"led - led off|slow|fast\r\n"\<close> of a command table, whether or not the final
  \<open>"\r\n"\<close> is counted.
\<close>

theorem help_scenario_output:
  "uart_tx (console_process_bytes (bytes_of ''help'' @ [0x0D, 0x0A]) boot_state)
     = bytes_of ''help'' @ [0x0D, 0x0A]
       @ bytes_of ''help, led off, led slow, led fast'' @ [0x0D, 0x0A]
       @ bytes_of ''> '' @ [0x0D, 0x0A]
   \<and> uart_tx (console_process_bytes (bytes_of ''help'' @ [0x0D, 0x0A]) boot_state)
     \<noteq> bytes_of ''help'' @ [0x0D, 0x0A]
       @ bytes_of ''help - show this help'' @ [0x0D, 0x0A]
       @ bytes_of ''led - led off|slow|fast'' @ [0x0D, 0x0A]
       @ bytes_of ''> ''
   \<and> uart_tx (console_process_bytes (bytes_of ''help'' @ [0x0D, 0x0A]) boot_state)
     \<noteq> bytes_of ''help'' @ [0x0D, 0x0A]
       @ bytes_of ''help - show this help'' @ [0x0D, 0x0A]
       @ bytes_of ''led - led off|slow|fast'' @ [0x0D, 0x0A]
       @ bytes_of ''> '' @ [0x0D, 0x0A]"
  using line_then_crlf [of "bytes_of ''help''" boot_state]
  by (simp add: boot_line bytes_of_def printable_def help_text_def)

text \<open>
  C7. The line \<open>led off\<close> is echoed and answered with the prompt alone: no
  \<open>"ok\r\n"\<close> is written. (\<open>console.c\<close> contains no call of \<open>led_set_mode\<close>.)
\<close>

theorem led_off_scenario_output:
  "uart_tx (console_process_bytes (bytes_of ''led off'' @ [0x0D, 0x0A]) boot_state)
     = bytes_of ''led off'' @ [0x0D, 0x0A] @ bytes_of ''> '' @ [0x0D, 0x0A]"
  using line_then_crlf [of "bytes_of ''led off''" boot_state]
  by (simp add: boot_line bytes_of_def printable_def)

text \<open>
  C8. The line \<open>xyz\<close> is echoed and answered with the prompt alone: no
  \<open>"unknown command\r\n"\<close> is written.
\<close>

theorem unknown_line_scenario_output:
  "uart_tx (console_process_bytes (bytes_of ''xyz'' @ [0x0D, 0x0A]) boot_state)
     = bytes_of ''xyz'' @ [0x0D, 0x0A] @ bytes_of ''> '' @ [0x0D, 0x0A]"
  using line_then_crlf [of "bytes_of ''xyz''" boot_state]
  by (simp add: boot_line bytes_of_def printable_def)

end
